theory Spec2Isabelle
  imports Main
begin

section \<open>EasyLogger: the day-rotating log writer (timeRotating.go)\<close>

text \<open>
  A shallow embedding of \<^verbatim>\<open>timeRotating.go\<close>. The Go struct \<^verbatim>\<open>Logger\<close> is a record,
  every method takes the logger and the outside world and returns the updated pair, errors
  are values, and the one run-time panic the file can raise (slicing past the end of a
  slice) is an outcome of its own. Calls into the operating system are fields of a record
  of operations over an abstract world, so that each theorem holds for every behaviour of
  the file system, failures included.
\<close>

subsection \<open>Constants\<close>

definition DefaultLogDir :: string where
  "DefaultLogDir = ''./Logs/''"

definition FileNameExt :: string where
  "FileNameExt = ''.log''"

definition CompressSuffix :: string where
  "CompressSuffix = ''.gz''"

text \<open>\<^verbatim>\<open>NanosecondPerDay = 24 * 3600 * time.Second\<close>, a \<^verbatim>\<open>time.Duration\<close> in nanoseconds.\<close>

definition NanosecondPerDay :: int where
  "NanosecondPerDay = 24 * 3600 * 1000000000"

subsection \<open>Errors\<close>

datatype error =
    ErrNotExist
  | ErrInvalid
  | OsError string
  | MismatchedExtension
  | ParseError string
  | CantReadDir error
  | CantOpenNew error

text \<open>\<^verbatim>\<open>os.IsNotExist\<close> on the errors of this model.\<close>

definition IsNotExist :: "error \<Rightarrow> bool" where
  "IsNotExist e = (e = ErrNotExist)"

subsection \<open>Strings\<close>

text \<open>\<^verbatim>\<open>strings.HasSuffix(s, suffix)\<close>:
  \<^verbatim>\<open>len(s) >= len(suffix) && s[len(s)-len(suffix):] == suffix\<close>.\<close>

definition HasSuffix :: "string \<Rightarrow> string \<Rightarrow> bool" where
  "HasSuffix s suffix =
     (length suffix \<le> length s \<and> drop (length s - length suffix) s = suffix)"

subsection \<open>Calendar time\<close>

text \<open>
  A \<^verbatim>\<open>time.Time\<close> as the reading it shows: the calendar date and the clock in its own
  location, and the location's offset east of UTC in seconds.
\<close>

record Time =
  year :: int
  month :: int
  day :: int
  hour :: int
  minute :: int
  second :: int
  nsec :: int
  offset :: int

text \<open>\<^verbatim>\<open>time.Date(y, m, d, 0, 0, 0, 0, time.UTC)\<close> on a date that needs no normalising.\<close>

definition Date :: "int \<Rightarrow> int \<Rightarrow> int \<Rightarrow> Time" where
  "Date y m d =
     \<lparr>year = y, month = m, day = d, hour = 0, minute = 0, second = 0, nsec = 0, offset = 0\<rparr>"

definition isLeap :: "int \<Rightarrow> bool" where
  "isLeap y = (y mod 4 = 0 \<and> (y mod 100 \<noteq> 0 \<or> y mod 400 = 0))"

text \<open>The table \<^verbatim>\<open>daysBefore\<close> of package time: days of a common year before each month.\<close>

definition daysBefore :: "int \<Rightarrow> int" where
  "daysBefore m =
     (if m \<le> 0 then 0 else if m = 1 then 31 else if m = 2 then 59 else if m = 3 then 90
      else if m = 4 then 120 else if m = 5 then 151 else if m = 6 then 181
      else if m = 7 then 212 else if m = 8 then 243 else if m = 9 then 273
      else if m = 10 then 304 else if m = 11 then 334 else 365)"

definition daysIn :: "int \<Rightarrow> int \<Rightarrow> int" where
  "daysIn m y = (if m = 2 \<and> isLeap y then 29 else daysBefore m - daysBefore (m - 1))"

text \<open>Days from 1 January of year 1 to 1 January of year \<open>y\<close> (proleptic Gregorian).\<close>

definition daysSinceEpoch :: "int \<Rightarrow> int" where
  "daysSinceEpoch y =
     (let n = y - 1 in 365 * n + n div 4 - n div 100 + n div 400)"

text \<open>The instant of a time, in nanoseconds since 0001-01-01 00:00:00 UTC.\<close>

definition instant :: "Time \<Rightarrow> int" where
  "instant t =
     (let days = daysSinceEpoch (year t) + daysBefore (month t - 1)
                 + (if isLeap (year t) \<and> 3 \<le> month t then 1 else 0) + (day t - 1);
          secs = days * 86400 + hour t * 3600 + minute t * 60 + second t - offset t
      in secs * 1000000000 + nsec t)"

text \<open>
  \<^verbatim>\<open>t.Sub(u)\<close>: the difference of the instants as a \<^verbatim>\<open>time.Duration\<close> (an int64 of
  nanoseconds), which Go saturates at the least and the greatest duration.
\<close>

definition minDuration :: int where
  "minDuration = - (2 ^ 63)"

definition maxDuration :: int where
  "maxDuration = 2 ^ 63 - 1"

definition Sub :: "Time \<Rightarrow> Time \<Rightarrow> int" where
  "Sub t u =
     (let d = instant t - instant u
      in if d < minDuration then minDuration else if maxDuration < d then maxDuration else d)"

text \<open>Multiplication of two int64 values, wrapping around as Go's does.\<close>

definition wrap64 :: "int \<Rightarrow> int" where
  "wrap64 x = (x + 2 ^ 63) mod 2 ^ 64 - 2 ^ 63"

subsection \<open>Formatting and parsing with the layout 2006-01-02\<close>

definition digit_char :: "nat \<Rightarrow> char" where
  "digit_char d = char_of (48 + d)"

definition is_digit :: "char \<Rightarrow> bool" where
  "is_digit c = (48 \<le> (of_char c :: nat) \<and> (of_char c :: nat) \<le> 57)"

definition digit_val :: "char \<Rightarrow> nat" where
  "digit_val c = of_char c - 48"

fun decimal :: "nat \<Rightarrow> string" where
  "decimal n = (if n < 10 then [digit_char n] else decimal (n div 10) @ [digit_char (n mod 10)])"

declare decimal.simps [simp del]

text \<open>\<^verbatim>\<open>appendInt(b, x, width)\<close> of package time: a sign for a negative number, then the
  decimal digits, padded with zeros on the left to the width.\<close>

definition appendInt :: "int \<Rightarrow> nat \<Rightarrow> string" where
  "appendInt x width =
     (let ds = decimal (nat \<bar>x\<bar>)
      in (if x < 0 then ''-'' else '''') @ replicate (width - length ds) (CHR ''0'') @ ds)"

text \<open>\<^verbatim>\<open>t.Format(FileNameTimeFormat)\<close> with \<^verbatim>\<open>FileNameTimeFormat = "2006-01-02"\<close>.\<close>

definition Format :: "Time \<Rightarrow> string" where
  "Format t = appendInt (year t) 4 @ ''-'' @ appendInt (month t) 2 @ ''-'' @ appendInt (day t) 2"

text \<open>\<^verbatim>\<open>isDigit(s, i)\<close>, \<^verbatim>\<open>leadingInt\<close>, \<^verbatim>\<open>atoi\<close>, \<^verbatim>\<open>getnum\<close> and \<^verbatim>\<open>skip\<close> of package time.\<close>

definition isDigit :: "string \<Rightarrow> nat \<Rightarrow> bool" where
  "isDigit s i = (i < length s \<and> is_digit (s ! i))"

fun leadingInt :: "string \<Rightarrow> nat \<Rightarrow> nat \<times> string" where
  "leadingInt [] x = (x, [])"
| "leadingInt (c # cs) x =
     (if is_digit c then leadingInt cs (x * 10 + digit_val c) else (x, c # cs))"

definition atoi :: "string \<Rightarrow> error + int" where
  "atoi s =
     (let neg = (s \<noteq> [] \<and> hd s = CHR ''-'');
          s' = (if s \<noteq> [] \<and> (hd s = CHR ''-'' \<or> hd s = CHR ''+'') then tl s else s)
      in case leadingInt s' 0 of
           (q, rem) \<Rightarrow>
             if rem \<noteq> [] then Inl (ParseError ''atoi'')
             else Inr (if neg then - int q else int q))"

definition getnum :: "string \<Rightarrow> bool \<Rightarrow> error + (int \<times> string)" where
  "getnum s fixed =
     (if \<not> isDigit s 0 then Inl (ParseError ''bad value'')
      else if \<not> isDigit s 1 then
        (if fixed then Inl (ParseError ''bad value'')
         else Inr (int (digit_val (s ! 0)), drop 1 s))
      else Inr (int (digit_val (s ! 0)) * 10 + int (digit_val (s ! 1)), drop 2 s))"

text \<open>\<^verbatim>\<open>skip(value, "-")\<close>: the literal between two fields must be there.\<close>

definition skip_dash :: "string \<Rightarrow> error + string" where
  "skip_dash v =
     (case v of [] \<Rightarrow> Inl (ParseError ''bad value'')
      | c # cs \<Rightarrow> if c = CHR ''-'' then Inr cs else Inl (ParseError ''bad value''))"

text \<open>
  \<^verbatim>\<open>time.Parse(FileNameTimeFormat, value)\<close>: a year of exactly four digits, a dash, a
  month of two digits in 1..12, a dash, a day of two digits, nothing after it, and the day
  within the month; the result is midnight UTC of that date.
\<close>

definition Parse :: "string \<Rightarrow> error + Time" where
  "Parse v =
     (if length v < 4 \<or> \<not> isDigit v 0 then Inl (ParseError ''bad value'')
      else case atoi (take 4 v) of
        Inl e \<Rightarrow> Inl e
      | Inr y \<Rightarrow>
         (case skip_dash (drop 4 v) of
            Inl e \<Rightarrow> Inl e
          | Inr v1 \<Rightarrow>
             (case getnum v1 True of
                Inl e \<Rightarrow> Inl e
              | Inr (m, v2) \<Rightarrow>
                  if m \<le> 0 \<or> 12 < m then Inl (ParseError ''month out of range'')
                  else
                   (case skip_dash v2 of
                      Inl e \<Rightarrow> Inl e
                    | Inr v3 \<Rightarrow>
                       (case getnum v3 True of
                          Inl e \<Rightarrow> Inl e
                        | Inr (d, v4) \<Rightarrow>
                            if v4 \<noteq> [] then Inl (ParseError ''extra text'')
                            else if d < 1 \<or> daysIn m y < d
                              then Inl (ParseError ''day out of range'')
                            else Inr (Date y m d))))))"

subsection \<open>File names\<close>

text \<open>The local \<^verbatim>\<open>name\<close> of \<^verbatim>\<open>newFileName\<close>: \<^verbatim>\<open>t.Format(FileNameTimeFormat) + FileNameExt\<close>.\<close>

definition logFileName :: "Time \<Rightarrow> string" where
  "logFileName t = Format t @ FileNameExt"

text \<open>\<^verbatim>\<open>timeFromName(filename, ext)\<close>.\<close>

definition timeFromName :: "string \<Rightarrow> string \<Rightarrow> error + Time" where
  "timeFromName filename ext =
     (if \<not> HasSuffix filename ext then Inl MismatchedExtension
      else Parse (take (length filename - length ext) filename))"


subsection \<open>Paths\<close>

text \<open>
  \<^verbatim>\<open>filepath.Join(dir, name)\<close> on a system whose separator is the slash: the non-empty
  arguments are joined with a slash and the result is cleaned (\<^verbatim>\<open>filepath.Clean\<close>):
  empty and dot elements go, a dot-dot element takes the element before it with it, or
  stays when there is none and the path is not rooted.
\<close>

fun split_sep :: "string \<Rightarrow> string list" where
  "split_sep [] = [] # []"
| "split_sep (c # cs) =
     (if c = CHR ''/'' then [] # split_sep cs
      else (case split_sep cs of [] \<Rightarrow> [c] # [] | x # xs \<Rightarrow> (c # x) # xs))"

definition clean_step :: "bool \<Rightarrow> string list \<Rightarrow> string \<Rightarrow> string list" where
  "clean_step rooted stk c =
     (if c = [] \<or> c = ''.'' then stk
      else if c = ''..'' then
        (case stk of
           [] \<Rightarrow> if rooted then [] else [''..'']
         | e # rest \<Rightarrow> if e = ''..'' then ''..'' # stk else rest)
      else c # stk)"

fun join_sep :: "string list \<Rightarrow> string" where
  "join_sep [] = []"
| "join_sep [x] = x"
| "join_sep (x # y # ys) = x @ ''/'' @ join_sep (y # ys)"

definition Clean :: "string \<Rightarrow> string" where
  "Clean p =
     (if p = [] then ''.''
      else
        let rooted = (hd p = CHR ''/'');
            out = (if rooted then ''/'' else [])
                  @ join_sep (rev (foldl (clean_step rooted) [] (split_sep p)))
        in if out = [] then ''.'' else out)"

definition Join :: "string \<Rightarrow> string \<Rightarrow> string" where
  "Join a b =
     (if a \<noteq> [] then Clean (a @ ''/'' @ b) else if b \<noteq> [] then Clean b else [])"

subsection \<open>Files and the world outside the program\<close>

text \<open>\<^verbatim>\<open>os.FileInfo\<close>, as far as the program reads it, and the program's \<^verbatim>\<open>logInfo\<close>.\<close>

record FileInfo =
  Name :: string
  IsDir :: bool

record logInfo =
  timestamp :: Time
  fileInfo :: FileInfo

text \<open>An open \<^verbatim>\<open>*os.File\<close>, named by its descriptor.\<close>

datatype File = File nat

datatype open_flag = O_APPEND | O_CREATE | O_WRONLY | O_TRUNC

text \<open>
  Every call that leaves the program takes the world and returns the world after it,
  with the result the call had: the file system (\<^verbatim>\<open>os.Stat\<close>, \<^verbatim>\<open>os.MkdirAll\<close>,
  \<^verbatim>\<open>ioutil.ReadDir\<close>, \<^verbatim>\<open>os.Remove\<close>, \<^verbatim>\<open>os.OpenFile\<close>, a file's \<^verbatim>\<open>Write\<close> and \<^verbatim>\<open>Close\<close>), the
  clock (\<^verbatim>\<open>time.Now\<close>, the reading in the local zone) and the zone conversion \<^verbatim>\<open>t.UTC()\<close>.
  \<^verbatim>\<open>compressLogFile\<close> is made of such calls only (open, stat, chown, gzip copy, remove);
  the mill reads nothing of it but the error it returns, so it is one more operation on
  the world here.
\<close>

record 'w os =
  osStat :: "string \<Rightarrow> 'w \<Rightarrow> (error + FileInfo) \<times> 'w"
  MkdirAll :: "string \<Rightarrow> nat \<Rightarrow> 'w \<Rightarrow> error option \<times> 'w"
  ReadDir :: "string \<Rightarrow> 'w \<Rightarrow> (error + FileInfo list) \<times> 'w"
  Remove :: "string \<Rightarrow> 'w \<Rightarrow> error option \<times> 'w"
  OpenFile :: "string \<Rightarrow> open_flag set \<Rightarrow> nat \<Rightarrow> 'w \<Rightarrow> (error + File) \<times> 'w"
  FileWrite :: "File \<Rightarrow> string \<Rightarrow> 'w \<Rightarrow> (nat \<times> error option) \<times> 'w"
  FileClose :: "File \<Rightarrow> 'w \<Rightarrow> error option \<times> 'w"
  compressLogFile :: "string \<Rightarrow> string \<Rightarrow> 'w \<Rightarrow> error option \<times> 'w"
  Now :: "'w \<Rightarrow> Time \<times> 'w"
  UTC :: "Time \<Rightarrow> Time"

subsection \<open>The logger\<close>

text \<open>
  The struct \<^verbatim>\<open>Logger\<close>. \<^verbatim>\<open>MaxDays\<close> and \<^verbatim>\<open>MaxBackups\<close> are Go \<^verbatim>\<open>int\<close>s. \<^verbatim>\<open>currentFile\<close>
  is \<^verbatim>\<open>nil\<close> or an open file. \<^verbatim>\<open>millCh\<close> is \<^verbatim>\<open>nil\<close> (\<open>None\<close>) or a channel of capacity
  one, of which the model keeps whether a signal is waiting in it; \<^verbatim>\<open>startMill\<close> is the
  \<^verbatim>\<open>sync.Once\<close>, true once it has run. The mutex is not modelled: the methods run one
  after the other.
\<close>

record Logger =
  Directory :: string
  MaxDays :: int
  MaxBackups :: int
  LocalTime :: bool
  Compress :: bool
  currentFile :: "File option"
  millCh :: "bool option"
  startMill :: bool

text \<open>What a function that can panic does: it returns, or the run-time system stops it.\<close>

datatype 'a outcome = Return 'a | Panic string

text \<open>\<^verbatim>\<open>close\<close> and \<^verbatim>\<open>Close\<close>.\<close>

definition close :: "'w os \<Rightarrow> Logger \<Rightarrow> 'w \<Rightarrow> error option \<times> Logger \<times> 'w" where
  "close os l w =
     (case currentFile l of
        None \<Rightarrow> (None, l, w)
      | Some f \<Rightarrow>
          (case FileClose os f w of (err, w1) \<Rightarrow> (err, l\<lparr>currentFile := None\<rparr>, w1)))"

definition Close :: "'w os \<Rightarrow> Logger \<Rightarrow> 'w \<Rightarrow> error option \<times> Logger \<times> 'w" where
  "Close os l w = close os l w"

text \<open>\<^verbatim>\<open>dir\<close>: returns the directory, after repairing or replacing it.\<close>

definition dir :: "'w os \<Rightarrow> Logger \<Rightarrow> 'w \<Rightarrow> string \<times> Logger \<times> 'w" where
  "dir os l w =
     (case osStat os (Directory l) w of
        (Inl err, w1) \<Rightarrow>
          if IsNotExist err then
            (case MkdirAll os (Directory l) 502 w1 of
               (Some err2, w2) \<Rightarrow> (DefaultLogDir, l\<lparr>Directory := DefaultLogDir\<rparr>, w2)
             | (None, w2) \<Rightarrow> (Directory l, l, w2))
          else (Directory l, l, w1)
      | (Inr fi, w1) \<Rightarrow>
          if \<not> IsDir fi then (DefaultLogDir, l\<lparr>Directory := DefaultLogDir\<rparr>, w1)
          else (Directory l, l, w1))"

text \<open>
  \<^verbatim>\<open>mill\<close>: the first call makes the channel (and starts the goroutine that reads it);
  every call then offers a signal to the channel, which takes it unless one is waiting.
\<close>

definition mill :: "Logger \<Rightarrow> Logger" where
  "mill l =
     (let l1 = (if startMill l then l else l\<lparr>millCh := Some False, startMill := True\<rparr>)
      in case millCh l1 of
           Some False \<Rightarrow> l1\<lparr>millCh := Some True\<rparr>
         | _ \<Rightarrow> l1)"

subsection \<open>Scanning the directory\<close>

text \<open>\<^verbatim>\<open>t.Before(u)\<close>, and the order of \<^verbatim>\<open>sort.Reverse(byFormatTime(...))\<close>.\<close>

definition Before :: "Time \<Rightarrow> Time \<Rightarrow> bool" where
  "Before t u = (instant t < instant u)"

text \<open>
  \<^verbatim>\<open>sort.Sort(sort.Reverse(byFormatTime(logFiles)))\<close>, as the insertion sort that package
  sort runs on a short slice: each entry moves towards the front past the entries that are
  strictly older. (On a slice of more than twelve entries Go may order entries of the same
  day differently; nothing below depends on that order.)
\<close>

fun insertNewest :: "logInfo \<Rightarrow> logInfo list \<Rightarrow> logInfo list" where
  "insertNewest x [] = [x]"
| "insertNewest x (y # ys) =
     (if Before (timestamp y) (timestamp x) then x # y # ys else y # insertNewest x ys)"

definition sortNewestFirst :: "logInfo list \<Rightarrow> logInfo list" where
  "sortNewestFirst xs = foldl (\<lambda>acc x. insertNewest x acc) [] xs"

text \<open>The loop of \<^verbatim>\<open>oldLogFiles\<close> over the directory's entries.\<close>

fun decodeEntries :: "FileInfo list \<Rightarrow> logInfo list" where
  "decodeEntries [] = []"
| "decodeEntries (f # fs) =
     (if IsDir f then decodeEntries fs
      else case timeFromName (Name f) FileNameExt of
        Inr t \<Rightarrow> \<lparr>timestamp = t, fileInfo = f\<rparr> # decodeEntries fs
      | Inl _ \<Rightarrow>
         (case timeFromName (Name f) (FileNameExt @ CompressSuffix) of
            Inr t \<Rightarrow> \<lparr>timestamp = t, fileInfo = f\<rparr> # decodeEntries fs
          | Inl _ \<Rightarrow> decodeEntries fs))"

definition oldLogFiles ::
  "'w os \<Rightarrow> Logger \<Rightarrow> 'w \<Rightarrow> (error + logInfo list) \<times> Logger \<times> 'w" where
  "oldLogFiles os l w =
     (case dir os l w of
        (d, l1, w1) \<Rightarrow>
          (case ReadDir os d w1 of
             (Inl err, w2) \<Rightarrow> (Inl (CantReadDir err), l1, w2)
           | (Inr files, w2) \<Rightarrow> (Inr (sortNewestFirst (decodeEntries files)), l1, w2)))"


subsection \<open>The mill pass\<close>

text \<open>
  The name a file counts under: \<^verbatim>\<open>fn := f.Name()\<close>, with the suffix \<^verbatim>\<open>.gz\<close> cut off
  when it is there.
\<close>

definition logicalName :: "logInfo \<Rightarrow> string" where
  "logicalName f =
     (let fn = Name (fileInfo f)
      in if HasSuffix fn CompressSuffix then take (length fn - length CompressSuffix) fn
         else fn)"

text \<open>
  The loop of the deletion step. \<open>preserved\<close> is the key set of the map
  \<^verbatim>\<open>preserved\<close>; the result is the pair of \<^verbatim>\<open>remaining\<close> and \<^verbatim>\<open>remove\<close>.
\<close>

fun partitionBackups ::
  "int \<Rightarrow> string set \<Rightarrow> logInfo list \<Rightarrow> logInfo list \<times> logInfo list" where
  "partitionBackups maxBackups preserved [] = ([], [])"
| "partitionBackups maxBackups preserved (f # fs) =
     (let preserved' = insert (logicalName f) preserved
      in case partitionBackups maxBackups preserved' fs of
           (remaining, remove) \<Rightarrow>
             if maxBackups < int (card preserved') then (remaining, f # remove)
             else (f # remaining, remove))"

text \<open>The deletion step: the files kept and the files to remove.\<close>

definition selectRemove :: "int \<Rightarrow> logInfo list \<Rightarrow> logInfo list \<times> logInfo list" where
  "selectRemove maxBackups files =
     (if 0 < maxBackups \<and> maxBackups < int (length files)
      then partitionBackups maxBackups {} files
      else (files, []))"

text \<open>
  The compression step on the files kept: \<^verbatim>\<open>temp := files[1:]\<close> panics on an empty
  slice; otherwise every entry of \<^verbatim>\<open>temp\<close> without the suffix \<^verbatim>\<open>.gz\<close> is marked.
\<close>

definition selectCompress :: "logInfo list \<Rightarrow> logInfo list outcome" where
  "selectCompress files =
     (case files of
        [] \<Rightarrow> Panic ''slice bounds out of range [1:0]''
      | _ # temp \<Rightarrow>
          Return (filter (\<lambda>f. \<not> HasSuffix (Name (fileInfo f)) CompressSuffix) temp))"

text \<open>The two loops that act: \<open>err\<close> keeps the first error.\<close>

fun removeAll ::
  "'w os \<Rightarrow> logInfo list \<Rightarrow> error option \<Rightarrow> Logger \<Rightarrow> 'w \<Rightarrow> error option \<times> Logger \<times> 'w"
where
  "removeAll os [] err l w = (err, l, w)"
| "removeAll os (f # fs) err l w =
     (case dir os l w of
        (d, l1, w1) \<Rightarrow>
          (case Remove os (Join d (Name (fileInfo f))) w1 of
             (errRemove, w2) \<Rightarrow>
               removeAll os fs (if err = None \<and> errRemove \<noteq> None then errRemove else err)
                 l1 w2))"

fun compressAll ::
  "'w os \<Rightarrow> logInfo list \<Rightarrow> error option \<Rightarrow> Logger \<Rightarrow> 'w \<Rightarrow> error option \<times> Logger \<times> 'w"
where
  "compressAll os [] err l w = (err, l, w)"
| "compressAll os (f # fs) err l w =
     (case dir os l w of
        (d, l1, w1) \<Rightarrow>
          (let fn = Join d (Name (fileInfo f))
           in case compressLogFile os fn (fn @ CompressSuffix) w1 of
                (errCompress, w2) \<Rightarrow>
                  compressAll os fs
                    (if err = None \<and> errCompress \<noteq> None then errCompress else err) l1 w2))"

definition runMill ::
  "'w os \<Rightarrow> logInfo list \<Rightarrow> logInfo list \<Rightarrow> Logger \<Rightarrow> 'w \<Rightarrow> error option \<times> Logger \<times> 'w"
where
  "runMill os remove compress l w =
     (case removeAll os remove None l w of
        (err, l1, w1) \<Rightarrow> compressAll os compress err l1 w1)"

text \<open>\<^verbatim>\<open>millRunOnce\<close>.\<close>

definition millRunOnce ::
  "'w os \<Rightarrow> Logger \<Rightarrow> 'w \<Rightarrow> error option outcome \<times> Logger \<times> 'w" where
  "millRunOnce os l w =
     (if MaxBackups l = 0 \<and> \<not> Compress l then (Return None, l, w)
      else case oldLogFiles os l w of
        (Inl err, l1, w1) \<Rightarrow> (Return (Some err), l1, w1)
      | (Inr files, l1, w1) \<Rightarrow>
         (case selectRemove (MaxBackups l1) files of
            (files', remove) \<Rightarrow>
              if Compress l1 then
                (case selectCompress files' of
                   Panic msg \<Rightarrow> (Panic msg, l1, w1)
                 | Return compress \<Rightarrow>
                    (case runMill os remove compress l1 w1 of
                       (err, l2, w2) \<Rightarrow> (Return err, l2, w2)))
              else
                (case runMill os remove [] l1 w1 of
                   (err, l2, w2) \<Rightarrow> (Return err, l2, w2))))"

subsection \<open>Opening the log file\<close>

text \<open>The time the logger works with: \<^verbatim>\<open>t := time.Now(); if !l.LocalTime { t = t.UTC() }\<close>.\<close>

definition zoned :: "'w os \<Rightarrow> Logger \<Rightarrow> Time \<Rightarrow> Time" where
  "zoned os l t = (if \<not> LocalTime l then UTC os t else t)"

definition newFileName :: "'w os \<Rightarrow> Logger \<Rightarrow> 'w \<Rightarrow> string \<times> Logger \<times> 'w" where
  "newFileName os l w =
     (case Now os w of
        (t, w1) \<Rightarrow>
          (let name = logFileName (zoned os l t)
           in case dir os l w1 of (d, l1, w2) \<Rightarrow> (Join d name, l1, w2)))"

definition openNew :: "'w os \<Rightarrow> Logger \<Rightarrow> 'w \<Rightarrow> error option \<times> Logger \<times> 'w" where
  "openNew os l w =
     (case newFileName os l w of
        (name, l1, w1) \<Rightarrow>
          (case OpenFile os name {O_CREATE, O_WRONLY, O_TRUNC} 420 w1 of
             (Inl err, w2) \<Rightarrow> (Some (CantOpenNew err), l1, w2)
           | (Inr f, w2) \<Rightarrow> (None, mill (l1\<lparr>currentFile := Some f\<rparr>), w2)))"

text \<open>
  \<^verbatim>\<open>openExistingOrNew\<close>. The bound \<^verbatim>\<open>time.Duration(l.MaxDays)*NanosecondPerDay\<close> is a
  product of int64 values; the path of the file to reopen is \<^verbatim>\<open>l.dir()+latest.Name()\<close>,
  the two strings one after the other.
\<close>

definition openExistingOrNew ::
  "'w os \<Rightarrow> Logger \<Rightarrow> 'w \<Rightarrow> error option \<times> Logger \<times> 'w" where
  "openExistingOrNew os l w =
     (case oldLogFiles os l w of
        (Inl err, l1, w1) \<Rightarrow> (Some err, l1, w1)
      | (Inr allFiles, l1, w1) \<Rightarrow>
         (case allFiles of
            [] \<Rightarrow> openNew os l1 w1
          | latest # _ \<Rightarrow>
             (case Now os w1 of
                (t, w2) \<Rightarrow>
                  (let duration = Sub (zoned os l1 t) (timestamp latest)
                   in if duration < wrap64 (MaxDays l1 * NanosecondPerDay) then
                        (case dir os l1 w2 of
                           (d, l2, w3) \<Rightarrow>
                             (case OpenFile os (d @ Name (fileInfo latest))
                                     {O_APPEND, O_WRONLY} 420 w3 of
                                (Inl err, w4) \<Rightarrow> (Some err, l2, w4)
                              | (Inr file, w4) \<Rightarrow>
                                  (None, l2\<lparr>currentFile := Some file\<rparr>, w4)))
                      else openNew os l1 w2))))"

subsection \<open>Writing\<close>

text \<open>\<^verbatim>\<open>l.currentFile.Write(p)\<close>; on a nil file Go's \<^verbatim>\<open>Write\<close> returns \<^verbatim>\<open>os.ErrInvalid\<close>.\<close>

definition writeCurrent ::
  "'w os \<Rightarrow> Logger \<Rightarrow> string \<Rightarrow> 'w \<Rightarrow> (nat \<times> error option) \<times> Logger \<times> 'w" where
  "writeCurrent os l p w =
     (case currentFile l of
        None \<Rightarrow> ((0, Some ErrInvalid), l, w)
      | Some f \<Rightarrow> (case FileWrite os f p w of (r, w1) \<Rightarrow> (r, l, w1)))"

definition Write ::
  "'w os \<Rightarrow> Logger \<Rightarrow> string \<Rightarrow> 'w \<Rightarrow> (nat \<times> error option) \<times> Logger \<times> 'w" where
  "Write os l p w =
     (if currentFile l = None then
        (case openExistingOrNew os l w of
           (Some err, l1, w1) \<Rightarrow> ((0, Some err), l1, w1)
         | (None, l1, w1) \<Rightarrow> writeCurrent os l1 p w1)
      else writeCurrent os l p w)"


subsection \<open>Sequences of calls\<close>

text \<open>One \<^verbatim>\<open>Write\<close> after the other, each on the logger and the world the one before left.\<close>

fun WriteSeq ::
  "'w os \<Rightarrow> Logger \<Rightarrow> string list \<Rightarrow> 'w \<Rightarrow> (nat \<times> error option) list \<times> Logger \<times> 'w" where
  "WriteSeq os l [] w = ([], l, w)"
| "WriteSeq os l (p # ps) w =
     (case Write os l p w of
        (r, l1, w1) \<Rightarrow> (case WriteSeq os l1 ps w1 of (rs, l2, w2) \<Rightarrow> (r # rs, l2, w2)))"

subsection \<open>The mill's actions, told as a list\<close>

text \<open>
  The pass as its documentation tells it: the actions are the removals, then the
  compressions; each is attempted in turn, whatever the ones before it returned; the pass
  returns the first error there was.
\<close>

datatype action = RemoveFile logInfo | CompressFile logInfo

definition attempt ::
  "'w os \<Rightarrow> action \<Rightarrow> Logger \<Rightarrow> 'w \<Rightarrow> error option \<times> Logger \<times> 'w" where
  "attempt os a l w =
     (case dir os l w of
        (d, l1, w1) \<Rightarrow>
          (case a of
             RemoveFile f \<Rightarrow>
               (case Remove os (Join d (Name (fileInfo f))) w1 of (e, w2) \<Rightarrow> (e, l1, w2))
           | CompressFile f \<Rightarrow>
               (case compressLogFile os (Join d (Name (fileInfo f)))
                       (Join d (Name (fileInfo f)) @ CompressSuffix) w1 of
                  (e, w2) \<Rightarrow> (e, l1, w2))))"

fun attemptAll ::
  "'w os \<Rightarrow> action list \<Rightarrow> Logger \<Rightarrow> 'w \<Rightarrow> error option list \<times> Logger \<times> 'w" where
  "attemptAll os [] l w = ([], l, w)"
| "attemptAll os (a # as) l w =
     (case attempt os a l w of
        (e, l1, w1) \<Rightarrow> (case attemptAll os as l1 w1 of (es, l2, w2) \<Rightarrow> (e # es, l2, w2)))"

fun firstError :: "error option list \<Rightarrow> error option" where
  "firstError [] = None"
| "firstError (None # es) = firstError es"
| "firstError (Some e # es) = Some e"

text \<open>
  The logical files of a scan, newest first: the names the entries count under, each
  once, in the order of their first entry.
\<close>

fun logicalFiles :: "string list \<Rightarrow> string list" where
  "logicalFiles [] = []"
| "logicalFiles (n # ns) = n # logicalFiles (filter (\<lambda>m. m \<noteq> n) ns)"

subsection \<open>A scripted world, for running the model\<close>

text \<open>
  A world that answers from a fixed script and keeps the list of what was done to it: what
  \<^verbatim>\<open>os.Stat\<close> and \<^verbatim>\<open>ioutil.ReadDir\<close> return for each path, the error (if any) that making,
  removing, opening or compressing a path gives, and the reading of the clock, taken in
  UTC.
\<close>

datatype event =
    DidMkdirAll string
  | DidRemove string
  | DidCompress string string
  | DidOpen string "open_flag set"
  | DidWrite File string
  | DidClose File

record script =
  statAt :: "string \<Rightarrow> error + FileInfo"
  listAt :: "string \<Rightarrow> error + FileInfo list"
  faultAt :: "string \<Rightarrow> error option"
  clock :: Time

definition scripted :: "script \<Rightarrow> event list os" where
  "scripted s =
     \<lparr>osStat = (\<lambda>p w. (statAt s p, w)),
      MkdirAll = (\<lambda>p perm w. (faultAt s p, w @ [DidMkdirAll p])),
      ReadDir = (\<lambda>p w. (listAt s p, w)),
      Remove = (\<lambda>p w. (faultAt s p, w @ [DidRemove p])),
      OpenFile = (\<lambda>p flags perm w.
         (case faultAt s p of Some e \<Rightarrow> Inl e | None \<Rightarrow> Inr (File (length w)),
          w @ [DidOpen p flags])),
      FileWrite = (\<lambda>f p w. ((length p, None), w @ [DidWrite f p])),
      FileClose = (\<lambda>f w. (None, w @ [DidClose f])),
      compressLogFile = (\<lambda>src dst w. (faultAt s src, w @ [DidCompress src dst])),
      Now = (\<lambda>w. (clock s, w)),
      UTC = (\<lambda>t. t)\<rparr>"

text \<open>A regular file and a directory, as \<^verbatim>\<open>os.FileInfo\<close>.\<close>

definition regular :: "string \<Rightarrow> FileInfo" where
  "regular n = \<lparr>Name = n, IsDir = False\<rparr>"

definition directory :: "string \<Rightarrow> FileInfo" where
  "directory n = \<lparr>Name = n, IsDir = True\<rparr>"

text \<open>A logger as a caller builds it: the configuration, no file open, no mill yet.\<close>

definition newLogger :: "string \<Rightarrow> int \<Rightarrow> int \<Rightarrow> bool \<Rightarrow> bool \<Rightarrow> Logger" where
  "newLogger d maxDays maxBackups localTime compress =
     \<lparr>Directory = d, MaxDays = maxDays, MaxBackups = maxBackups, LocalTime = localTime,
      Compress = compress, currentFile = None, millCh = None, startMill = False\<rparr>"

text \<open>
  What every operation leaves of the configuration: the four settings as they were, and
  the directory as it was or replaced by the default.
\<close>

definition keepsSettings :: "Logger \<Rightarrow> Logger \<Rightarrow> bool" where
  "keepsSettings l l' =
     (MaxDays l' = MaxDays l \<and> MaxBackups l' = MaxBackups l \<and> LocalTime l' = LocalTime l
      \<and> Compress l' = Compress l
      \<and> (Directory l' = Directory l \<or> Directory l' = DefaultLogDir))"

text \<open>The order of a scan: the first of two entries is not the older one.\<close>

definition notOlder :: "logInfo \<Rightarrow> logInfo \<Rightarrow> bool" where
  "notOlder f g = (instant (timestamp g) \<le> instant (timestamp f))"

text \<open>An entry of a scan: a regular file and the date its name decodes to.\<close>

definition entry :: "int \<Rightarrow> int \<Rightarrow> int \<Rightarrow> string \<Rightarrow> logInfo" where
  "entry y m d n = \<lparr>timestamp = Date y m d, fileInfo = regular n\<rparr>"

definition tenOClock :: "int \<Rightarrow> int \<Rightarrow> int \<Rightarrow> Time" where
  "tenOClock y m d =
     \<lparr>year = y, month = m, day = d, hour = 10, minute = 0, second = 0, nsec = 0, offset = 0\<rparr>"

text \<open>
  A directory of four log files, a file that is no log and a subdirectory, on 4 September
  2021; removing the log of 2 September fails.
\<close>

definition fourLogs :: script where
  "fourLogs =
     \<lparr>statAt = (\<lambda>p. Inr (directory p)),
      listAt = (\<lambda>p. Inr [regular ''2021-09-01.log.gz'', regular ''2021-09-02.log'',
                          regular ''2021-09-03.log'', regular ''2021-09-04.log'',
                          directory ''2021-09-05.log'', regular ''notes.txt'']),
      faultAt = (\<lambda>p. if p = ''Logs/2021-09-02.log'' then Some (OsError ''busy'') else None),
      clock = tenOClock 2021 9 4\<rparr>"

text \<open>
  The configured path is a regular file; the default directory is there and empty.
\<close>

definition pathIsFile :: script where
  "pathIsFile =
     \<lparr>statAt = (\<lambda>p. if p = ''/etc/hosts'' then Inr (regular ''hosts'')
                      else if p = ''./Logs/'' then Inr (directory ''Logs'')
                      else Inl ErrNotExist),
      listAt = (\<lambda>p. Inr []),
      faultAt = (\<lambda>p. None),
      clock = tenOClock 2021 9 4\<rparr>"


text \<open>
  The directory \<^verbatim>\<open>./Logs\<close>, configured without a slash at its end, holds the log of the
  day and nothing else; no other file exists.
\<close>

definition noTrailingSlash :: script where
  "noTrailingSlash =
     \<lparr>statAt = (\<lambda>p. if Clean p = ''Logs'' then Inr (directory ''Logs'') else Inl ErrNotExist),
      listAt = (\<lambda>p. if Clean p = ''Logs'' then Inr [regular ''2021-09-04.log'']
                      else Inl ErrNotExist),
      faultAt = (\<lambda>p. if Clean p = ''Logs/2021-09-04.log'' then None else Some ErrNotExist),
      clock = tenOClock 2021 9 4\<rparr>"

text \<open>A directory with no log file in it.\<close>

definition noLogs :: script where
  "noLogs =
     \<lparr>statAt = (\<lambda>p. Inr (directory p)),
      listAt = (\<lambda>p. Inr [regular ''notes.txt'']),
      faultAt = (\<lambda>p. None),
      clock = tenOClock 2021 9 4\<rparr>"

section \<open>Properties\<close>

subsection \<open>Digits\<close>

lemma is_digit_digit_char: "d < 10 \<Longrightarrow> is_digit (digit_char d)"
  by (simp add: is_digit_def digit_char_def of_char_of)

lemma digit_val_digit_char: "d < 10 \<Longrightarrow> digit_val (digit_char d) = d"
  by (simp add: digit_val_def digit_char_def of_char_of)

lemma is_digit_zero: "is_digit (CHR ''0'')"
  by (simp add: is_digit_def)

lemma digit_val_zero: "digit_val (CHR ''0'') = 0"
  by (simp add: digit_val_def)

lemma digit_char_0: "digit_char 0 = CHR ''0''"
  by code_simp

lemma leadingInt_decimal:
  "leadingInt (decimal n @ r) x = leadingInt r (x * 10 ^ length (decimal n) + n)"
proof (induction n arbitrary: x r rule: decimal.induct)
  case (1 n)
  show ?case
  proof (cases "n < 10")
    case True
    then show ?thesis
      by (simp add: decimal.simps [of n] is_digit_digit_char digit_val_digit_char)
  next
    case False
    have m: "n mod 10 < 10" by simp
    from False have d: "decimal n = decimal (n div 10) @ [digit_char (n mod 10)]"
      by (simp add: decimal.simps [of n])
    have "leadingInt (decimal n @ r) x
          = leadingInt (decimal (n div 10) @ (digit_char (n mod 10) # r)) x"
      by (simp add: d)
    also have "\<dots> = leadingInt (digit_char (n mod 10) # r)
                       (x * 10 ^ length (decimal (n div 10)) + n div 10)"
      by (rule 1 [OF False])
    also have "\<dots> = leadingInt r
                 ((x * 10 ^ length (decimal (n div 10)) + n div 10) * 10 + n mod 10)"
      by (simp add: is_digit_digit_char [OF m] digit_val_digit_char [OF m])
    also have "(x * 10 ^ length (decimal (n div 10)) + n div 10) * 10 + n mod 10
               = x * 10 ^ length (decimal n) + n"
      by (simp add: d algebra_simps)
    finally show ?thesis .
  qed
qed

lemma leadingInt_zeros: "leadingInt (replicate k (CHR ''0'') @ r) 0 = leadingInt r 0"
  by (induction k) (simp_all add: is_digit_zero digit_val_zero)

lemma length_decimal: "n < 10 ^ k \<Longrightarrow> 0 < k \<Longrightarrow> length (decimal n) \<le> k"
proof (induction n arbitrary: k rule: decimal.induct)
  case (1 n)
  show ?case
  proof (cases "n < 10")
    case True
    then show ?thesis using 1(3) by (simp add: decimal.simps [of n])
  next
    case False
    then obtain j where k: "k = Suc j" using 1(3) by (cases k) auto
    from False 1(2) k have j: "0 < j" by (cases j) auto
    from 1(2) k have "n div 10 < 10 ^ j" by (simp add: less_mult_imp_div_less)
    from 1(1) [OF False this j] False k show ?thesis by (simp add: decimal.simps [of n])
  qed
qed

lemma decimal_digits: "c \<in> set (decimal n) \<Longrightarrow> is_digit c"
proof (induction n rule: decimal.induct)
  case (1 n)
  show ?case
  proof (cases "n < 10")
    case True
    then show ?thesis using 1(2) by (simp add: decimal.simps [of n] is_digit_digit_char)
  next
    case False
    have m: "n mod 10 < 10" by simp
    from False 1 show ?thesis
      by (auto simp add: decimal.simps [of n] is_digit_digit_char [OF m])
  qed
qed

lemma decimal_nonempty: "decimal n \<noteq> []"
  by (subst decimal.simps) simp

subsection \<open>Formatting a date and parsing it back\<close>

lemma appendInt2:
  assumes "0 \<le> m" "m < 100"
  shows "appendInt m 2 = [digit_char (nat m div 10), digit_char (nat m mod 10)]"
proof (cases "nat m < 10")
  case True
  then show ?thesis using assms
    by (simp add: appendInt_def Let_def decimal.simps [of "nat m"] digit_char_0)
next
  case False
  from assms have "nat m div 10 < 10" by linarith
  then show ?thesis using assms False
    by (simp add: appendInt_def Let_def decimal.simps [of "nat m"]
        decimal.simps [of "nat m div 10"])
qed

lemma getnum2:
  assumes "a < 10" "b < 10"
  shows "getnum (digit_char a # digit_char b # r) True = Inr (int a * 10 + int b, r)"
  using assms
  by (simp add: getnum_def isDigit_def is_digit_digit_char digit_val_digit_char)

lemma getnum_appendInt2:
  assumes "0 \<le> m" "m < 100"
  shows "getnum (appendInt m 2 @ r) True = Inr (m, r)"
proof -
  have a: "nat m div 10 < 10" and b: "nat m mod 10 < 10" using assms by linarith+
  have "int (nat m div 10 * 10 + nat m mod 10) = m" using assms by simp
  then have "int (nat m div 10) * 10 + int (nat m mod 10) = m"
    by (simp only: of_nat_add of_nat_mult of_nat_numeral)
  then show ?thesis using getnum2 [OF a b, of r] by (simp add: appendInt2 [OF assms])
qed

lemma appendInt4_shape:
  assumes "0 \<le> y" "y \<le> 9999"
  shows "appendInt y 4 = replicate (4 - length (decimal (nat y))) (CHR ''0'') @ decimal (nat y)"
    and "length (appendInt y 4) = 4"
    and "is_digit (hd (appendInt y 4))"
proof -
  have n: "nat y < 10 ^ 4" using assms by simp
  have l: "length (decimal (nat y)) \<le> 4" by (rule length_decimal [OF n]) simp
  show s: "appendInt y 4
           = replicate (4 - length (decimal (nat y))) (CHR ''0'') @ decimal (nat y)"
    using assms by (simp add: appendInt_def Let_def)
  show "length (appendInt y 4) = 4" using l by (simp add: s)
  have "\<forall>c \<in> set (appendInt y 4). is_digit c"
    by (auto simp add: s is_digit_zero decimal_digits)
  moreover have "appendInt y 4 \<noteq> []" by (simp add: s decimal_nonempty)
  ultimately show "is_digit (hd (appendInt y 4))" by simp
qed

lemma atoi_appendInt4:
  assumes "0 \<le> y" "y \<le> 9999"
  shows "atoi (appendInt y 4) = Inr y"
proof -
  note sh = appendInt4_shape [OF assms]
  have "\<not> is_digit (CHR ''-'')" "\<not> is_digit (CHR ''+'')" by (simp_all add: is_digit_def)
  with sh(3) have sg: "hd (appendInt y 4) \<noteq> CHR ''-''" "hd (appendInt y 4) \<noteq> CHR ''+''"
    by auto
  have "leadingInt (appendInt y 4) 0 = leadingInt (decimal (nat y) @ []) 0"
    by (simp only: sh(1) leadingInt_zeros append_Nil2)
  also have "\<dots> = (nat y, [])" by (simp only: leadingInt_decimal) simp
  finally have li: "leadingInt (appendInt y 4) 0 = (nat y, [])" .
  show ?thesis using assms sg by (simp add: atoi_def li)
qed

lemma Parse_Format:
  assumes "0 \<le> year t" "year t \<le> 9999" "1 \<le> month t" "month t \<le> 12"
    and "1 \<le> day t" "day t \<le> daysIn (month t) (year t)"
  shows "Parse (Format t) = Inr (Date (year t) (month t) (day t))"
proof -
  let ?Y = "appendInt (year t) 4"
  let ?r1 = "appendInt (month t) 2 @ CHR ''-'' # appendInt (day t) 2"
  note sh = appendInt4_shape [OF assms(1,2)]
  have f: "Format t = ?Y @ CHR ''-'' # ?r1" by (simp add: Format_def)
  have ne: "?Y \<noteq> []" using sh(2) by auto
  have l: "\<not> length (Format t) < 4" by (simp add: f sh(2))
  have "Format t ! 0 = hd ?Y" using ne by (simp add: f hd_conv_nth nth_append)
  then have d0: "isDigit (Format t) 0" using sh(3) ne by (simp add: isDigit_def f)
  have tk: "take 4 (Format t) = ?Y" and dr: "drop 4 (Format t) = CHR ''-'' # ?r1"
    by (simp_all add: f sh(2))
  have dmax: "daysIn (month t) (year t) \<le> 31"
    using assms(3,4) by (auto simp add: daysIn_def daysBefore_def)
  have m: "0 \<le> month t" "month t < 100" using assms by auto
  have d: "0 \<le> day t" "day t < 100" using assms dmax by auto
  have g1: "getnum ?r1 True = Inr (month t, CHR ''-'' # appendInt (day t) 2)"
    by (rule getnum_appendInt2 [OF m])
  have g2: "getnum (appendInt (day t) 2) True = Inr (day t, [])"
    using getnum_appendInt2 [OF d, of "[]"] by simp
  show ?thesis
    using assms(3-6)
    by (simp add: Parse_def l d0 tk dr atoi_appendInt4 [OF assms(1,2)] skip_dash_def g1 g2)
qed

text \<open>
  C1 (naming round trip). For every time whose calendar date the layout can hold (a year
  of four digits, and a month and a day of the calendar), the name that \<^verbatim>\<open>newFileName\<close>
  builds for it, read back by \<^verbatim>\<open>timeFromName\<close> with the extension \<^verbatim>\<open>.log\<close>, parses
  without error and gives the same year, month and day, at midnight UTC: the clock of the
  input is dropped.
\<close>

theorem naming_round_trip:
  assumes "0 \<le> year t" "year t \<le> 9999" "1 \<le> month t" "month t \<le> 12"
    and "1 \<le> day t" "day t \<le> daysIn (month t) (year t)"
  shows "timeFromName (logFileName t) FileNameExt = Inr (Date (year t) (month t) (day t))"
  using Parse_Format [OF assms]
  by (simp add: timeFromName_def logFileName_def HasSuffix_def)

theorem naming_round_trip_witness:
  "timeFromName
     (logFileName \<lparr>year = 2021, month = 9, day = 2, hour = 14, minute = 58, second = 56,
                   nsec = 0, offset = 0\<rparr>) FileNameExt
   = Inr (Date 2021 9 2)"
  using naming_round_trip
    [of "\<lparr>year = 2021, month = 9, day = 2, hour = 14, minute = 58, second = 56,
          nsec = 0, offset = 0\<rparr>"]
  by (simp add: daysIn_def daysBefore_def isLeap_def)

text \<open>
  The path \<^verbatim>\<open>newFileName\<close> returns is the directory joined with that name, and a
  directory entry of that name is decoded by the scan to the same date.
\<close>

lemma newFileName_path:
  assumes "Now os w = (t, w1)" and "dir os l w1 = (d, l1, w2)"
  shows "newFileName os l w = (Join d (logFileName (zoned os l t)), l1, w2)"
  using assms by (simp add: newFileName_def)

lemma decodeEntries_logFileName:
  assumes "0 \<le> year t" "year t \<le> 9999" "1 \<le> month t" "month t \<le> 12"
    and "1 \<le> day t" "day t \<le> daysIn (month t) (year t)"
  shows "decodeEntries [regular (logFileName t)]
         = [\<lparr>timestamp = Date (year t) (month t) (day t), fileInfo = regular (logFileName t)\<rparr>]"
proof -
  have "timeFromName (logFileName t) FileNameExt = Inr (Date (year t) (month t) (day t))"
    using Parse_Format [OF assms]
    by (simp add: timeFromName_def logFileName_def HasSuffix_def)
  then show ?thesis by (simp add: regular_def)
qed

subsection \<open>The scan is sorted, newest first\<close>

lemma set_insertNewest: "set (insertNewest x ys) = insert x (set ys)"
  by (induction ys) auto

lemma sorted_insertNewest:
  "sorted_wrt notOlder ys \<Longrightarrow> sorted_wrt notOlder (insertNewest x ys)"
proof (induction ys)
  case Nil
  show ?case by simp
next
  case (Cons y ys)
  show ?case
  proof (cases "Before (timestamp y) (timestamp x)")
    case True
    with Cons.prems show ?thesis
      by (auto simp add: notOlder_def Before_def)
  next
    case False
    with Cons show ?thesis
      by (auto simp add: notOlder_def Before_def set_insertNewest)
  qed
qed

lemma sortNewestFirst_snoc:
  "sortNewestFirst (xs @ [x]) = insertNewest x (sortNewestFirst xs)"
  by (simp add: sortNewestFirst_def)

lemma sortNewestFirst_sorted:
  "sorted_wrt notOlder (sortNewestFirst xs) \<and> set (sortNewestFirst xs) = set xs
   \<and> length (sortNewestFirst xs) = length xs"
proof (induction xs rule: rev_induct)
  case Nil
  show ?case by (simp add: sortNewestFirst_def)
next
  case (snoc x xs)
  have "length (insertNewest x ys) = Suc (length ys)" for ys
    by (induction ys) auto
  with snoc show ?case
    by (simp add: sortNewestFirst_snoc sorted_insertNewest set_insertNewest)
qed

lemma scan_newest_first:
  assumes "oldLogFiles os l w = (Inr (latest # rest), l1, w1)"
  shows "\<forall>g \<in> set rest. instant (timestamp g) \<le> instant (timestamp latest)"
proof -
  from assms obtain fs where "sortNewestFirst (decodeEntries fs) = latest # rest"
    by (auto simp add: oldLogFiles_def split_beta split: sum.splits)
  with sortNewestFirst_sorted [of "decodeEntries fs"]
  have "sorted_wrt notOlder (latest # rest)" by simp
  then show ?thesis by (simp add: notOlder_def)
qed

subsection \<open>Close\<close>

text \<open>
  C7 (close idempotence). \<^verbatim>\<open>Close\<close> with no file open returns nil and changes nothing.
  After any \<^verbatim>\<open>Close\<close> the current file is nil and the logger is otherwise as it was: the
  mill's channel and its start flag are untouched, so \<^verbatim>\<open>Close\<close> neither stops the mill nor
  waits for it. A second \<^verbatim>\<open>Close\<close> right after returns nil and changes nothing.
\<close>

theorem close_idempotent:
  "(currentFile l = None \<longrightarrow> Close os l w = (None, l, w))
   \<and> (case Close os l w of
        (err, l1, w1) \<Rightarrow>
          currentFile l1 = None \<and> l1 = l\<lparr>currentFile := None\<rparr>
          \<and> Close os l1 w1 = (None, l1, w1))"
  by (cases "currentFile l") (simp_all add: Close_def close_def split: prod.splits)

theorem close_idempotent_witness:
  "Close (scripted fourLogs)
     ((newLogger ''./Logs/'' 7 2 False True)
        \<lparr>currentFile := Some (File 0), millCh := Some True, startMill := True\<rparr>) []
   = (None,
      (newLogger ''./Logs/'' 7 2 False True)
        \<lparr>currentFile := None, millCh := Some True, startMill := True\<rparr>,
      [DidClose (File 0)])
   \<and> Close (scripted fourLogs)
       ((newLogger ''./Logs/'' 7 2 False True)
          \<lparr>currentFile := None, millCh := Some True, startMill := True\<rparr>)
       [DidClose (File 0)]
     = (None,
        (newLogger ''./Logs/'' 7 2 False True)
          \<lparr>currentFile := None, millCh := Some True, startMill := True\<rparr>,
        [DidClose (File 0)])"
  using close_idempotent
    [of "(newLogger ''./Logs/'' 7 2 False True)
           \<lparr>currentFile := Some (File 0), millCh := Some True, startMill := True\<rparr>"
        "scripted fourLogs" "[]"]
  by (simp add: Close_def close_def scripted_def newLogger_def)

subsection \<open>Writing to an open file\<close>

lemma Write_open:
  assumes "currentFile l = Some f"
  shows "Write os l p w = (fst (FileWrite os f p w), l, snd (FileWrite os f p w))"
  using assms by (simp add: Write_def writeCurrent_def split: prod.splits)

lemma WriteSeq_open:
  assumes "currentFile l = Some f"
  shows "fst (snd (WriteSeq os l ps w)) = l
         \<and> snd (snd (WriteSeq os l ps w)) = foldl (\<lambda>w p. snd (FileWrite os f p w)) w ps"
  using assms
proof (induction ps arbitrary: w)
  case Nil
  show ?case by simp
next
  case (Cons p ps)
  from Cons.IH [OF Cons.prems, of "snd (FileWrite os f p w)"] show ?case
    by (simp add: Write_open [OF Cons.prems] split_beta)
qed

text \<open>
  C6 (no rotation on a write). While a file is open, \<^verbatim>\<open>Write\<close> is the write to that file
  and nothing else: the logger, and so its file handle, is the same after a \<^verbatim>\<open>Write\<close>
  and after any sequence of them, and the world has seen the writes to that one file
  only, no close and no open.
\<close>

theorem no_rotation_while_open:
  assumes "currentFile l = Some f"
  shows "Write os l p w = (fst (FileWrite os f p w), l, snd (FileWrite os f p w))
         \<and> fst (snd (WriteSeq os l ps w)) = l
         \<and> snd (snd (WriteSeq os l ps w)) = foldl (\<lambda>w p. snd (FileWrite os f p w)) w ps"
  by (rule conjI [OF Write_open [OF assms] WriteSeq_open [OF assms]])

theorem no_rotation_while_open_witness:
  "WriteSeq (scripted fourLogs)
     ((newLogger ''./Logs/'' 7 2 False True)\<lparr>currentFile := Some (File 0)\<rparr>)
     [''first'', ''second''] []
   = ([(5, None), (6, None)],
      (newLogger ''./Logs/'' 7 2 False True)\<lparr>currentFile := Some (File 0)\<rparr>,
      [DidWrite (File 0) ''first'', DidWrite (File 0) ''second''])"
  using no_rotation_while_open
    [of "(newLogger ''./Logs/'' 7 2 False True)\<lparr>currentFile := Some (File 0)\<rparr>" "File 0"
        "scripted fourLogs" "''first''" "[]" "[''first'', ''second'']"]
  by (simp add: Write_def writeCurrent_def scripted_def newLogger_def)

subsection \<open>The mill's actions\<close>

lemma firstError_step:
  "firstError ((if err = None \<and> e \<noteq> None then e else err) # es) = firstError (err # e # es)"
  by (cases err; cases e) simp_all

lemma removeAll_attemptAll:
  "removeAll os fs err l w =
     (case attemptAll os (map RemoveFile fs) l w of
        (es, l1, w1) \<Rightarrow> (firstError (err # es), l1, w1))"
proof (induction fs arbitrary: err l w)
  case Nil
  show ?case by (cases err) simp_all
next
  case (Cons f fs)
  show ?case
    by (simp only: removeAll.simps list.map attemptAll.simps attempt_def split_beta
        action.case Cons.IH firstError_step fst_conv snd_conv)
qed

lemma compressAll_attemptAll:
  "compressAll os fs err l w =
     (case attemptAll os (map CompressFile fs) l w of
        (es, l1, w1) \<Rightarrow> (firstError (err # es), l1, w1))"
proof (induction fs arbitrary: err l w)
  case Nil
  show ?case by (cases err) simp_all
next
  case (Cons f fs)
  show ?case
    by (simp only: compressAll.simps list.map attemptAll.simps attempt_def split_beta
        action.case Cons.IH firstError_step fst_conv snd_conv Let_def)
qed

lemma attemptAll_append:
  "attemptAll os (as @ bs) l w =
     (case attemptAll os as l w of
        (es, l1, w1) \<Rightarrow>
          (case attemptAll os bs l1 w1 of (es', l2, w2) \<Rightarrow> (es @ es', l2, w2)))"
  by (induction as arbitrary: l w) (simp_all add: split_beta)

lemma firstError_append:
  "firstError (es @ es') = firstError (firstError es # es')"
  by (induction es rule: firstError.induct) simp_all

lemma length_attemptAll: "length (fst (attemptAll os as l w)) = length as"
  by (induction as arbitrary: l w) (simp_all add: split_beta)

lemma runMill_attemptAll:
  "runMill os remove compress l w =
     (case attemptAll os (map RemoveFile remove @ map CompressFile compress) l w of
        (es, l1, w1) \<Rightarrow> (firstError es, l1, w1))"
  by (simp add: runMill_def removeAll_attemptAll compressAll_attemptAll attemptAll_append
      firstError_append [symmetric] split_beta)

text \<open>
  C4 (error policy of the mill pass). Once the scan has succeeded and the files are
  selected, \<^verbatim>\<open>millRunOnce\<close> attempts every removal, then every compression, each
  exactly once and each whatever the ones before it returned, and returns the first error
  among their results, or nil when there is none.
\<close>

theorem mill_attempts_every_action:
  assumes "\<not> (MaxBackups l = 0 \<and> \<not> Compress l)"
    and "oldLogFiles os l w = (Inr files, l1, w1)"
    and "selectRemove (MaxBackups l1) files = (kept, remove)"
    and "(if Compress l1 then selectCompress kept else Return []) = Return compress"
  shows "millRunOnce os l w =
           (case attemptAll os (map RemoveFile remove @ map CompressFile compress) l1 w1 of
              (es, l2, w2) \<Rightarrow> (Return (firstError es), l2, w2))
         \<and> length (fst (attemptAll os (map RemoveFile remove @ map CompressFile compress) l1 w1))
           = length remove + length compress"
  using assms
  by (auto simp add: millRunOnce_def runMill_attemptAll length_attemptAll
      split: prod.splits if_splits outcome.splits)


lemma fourLogs_scan:
  "oldLogFiles (scripted fourLogs) (newLogger ''./Logs/'' 7 2 False True) []
   = (Inr [entry 2021 9 4 ''2021-09-04.log'', entry 2021 9 3 ''2021-09-03.log'',
           entry 2021 9 2 ''2021-09-02.log'', entry 2021 9 1 ''2021-09-01.log.gz''],
      newLogger ''./Logs/'' 7 2 False True, [])"
  by code_simp

lemma fourLogs_selectRemove:
  "selectRemove 2
     [entry 2021 9 4 ''2021-09-04.log'', entry 2021 9 3 ''2021-09-03.log'',
      entry 2021 9 2 ''2021-09-02.log'', entry 2021 9 1 ''2021-09-01.log.gz'']
   = ([entry 2021 9 4 ''2021-09-04.log'', entry 2021 9 3 ''2021-09-03.log''],
      [entry 2021 9 2 ''2021-09-02.log'', entry 2021 9 1 ''2021-09-01.log.gz''])"
  by code_simp

lemma fourLogs_selectCompress:
  "selectCompress [entry 2021 9 4 ''2021-09-04.log'', entry 2021 9 3 ''2021-09-03.log'']
   = Return [entry 2021 9 3 ''2021-09-03.log'']"
  by code_simp

lemma fourLogs_attemptAll:
  "attemptAll (scripted fourLogs)
     (map RemoveFile [entry 2021 9 2 ''2021-09-02.log'', entry 2021 9 1 ''2021-09-01.log.gz'']
      @ map CompressFile [entry 2021 9 3 ''2021-09-03.log''])
     (newLogger ''./Logs/'' 7 2 False True) []
   = ([Some (OsError ''busy''), None, None], newLogger ''./Logs/'' 7 2 False True,
      [DidRemove ''Logs/2021-09-02.log'', DidRemove ''Logs/2021-09-01.log.gz'',
       DidCompress ''Logs/2021-09-03.log'' ''Logs/2021-09-03.log.gz''])"
  by code_simp

theorem mill_attempts_every_action_witness:
  "millRunOnce (scripted fourLogs) (newLogger ''./Logs/'' 7 2 False True) []
   = (Return (Some (OsError ''busy'')), newLogger ''./Logs/'' 7 2 False True,
      [DidRemove ''Logs/2021-09-02.log'', DidRemove ''Logs/2021-09-01.log.gz'',
       DidCompress ''Logs/2021-09-03.log'' ''Logs/2021-09-03.log.gz''])"
proof -
  let ?l = "newLogger ''./Logs/'' 7 2 False True"
  have h1: "\<not> (MaxBackups ?l = 0 \<and> \<not> Compress ?l)" by (simp add: newLogger_def)
  have m: "MaxBackups ?l = 2" and c: "Compress ?l" by (simp_all add: newLogger_def)
  have h3: "selectRemove (MaxBackups ?l)
              [entry 2021 9 4 ''2021-09-04.log'', entry 2021 9 3 ''2021-09-03.log'',
               entry 2021 9 2 ''2021-09-02.log'', entry 2021 9 1 ''2021-09-01.log.gz'']
            = ([entry 2021 9 4 ''2021-09-04.log'', entry 2021 9 3 ''2021-09-03.log''],
               [entry 2021 9 2 ''2021-09-02.log'', entry 2021 9 1 ''2021-09-01.log.gz''])"
    by (simp only: m fourLogs_selectRemove)
  have h4: "(if Compress ?l
             then selectCompress
                    [entry 2021 9 4 ''2021-09-04.log'', entry 2021 9 3 ''2021-09-03.log'']
             else Return []) = Return [entry 2021 9 3 ''2021-09-03.log'']"
    by (simp only: c if_True fourLogs_selectCompress)
  from mill_attempts_every_action [OF h1 fourLogs_scan h3 h4] show ?thesis
    by (simp only: fourLogs_attemptAll prod.case firstError.simps)
qed

subsection \<open>The deletion step\<close>

lemma partitionBackups_full:
  "finite S \<Longrightarrow> B < int (card S) \<Longrightarrow> partitionBackups B S fs = ([], fs)"
proof (induction fs arbitrary: S)
  case Nil
  show ?case by simp
next
  case (Cons f fs)
  have c: "card S \<le> card (insert (logicalName f) S)"
    using Cons.prems(1) by (simp add: card_insert_le)
  with Cons.prems have b: "B < int (card (insert (logicalName f) S))" by linarith
  have "partitionBackups B (insert (logicalName f) S) fs = ([], fs)"
    using Cons.IH [of "insert (logicalName f) S"] Cons.prems(1) b by simp
  then show ?case using b by (simp add: Let_def)
qed

lemma partitionBackups_append:
  "finite S \<Longrightarrow> fst (partitionBackups B S fs) @ snd (partitionBackups B S fs) = fs"
proof (induction fs arbitrary: S)
  case Nil
  show ?case by simp
next
  case (Cons f fs)
  let ?S = "insert (logicalName f) S"
  have fin: "finite ?S" using Cons.prems by simp
  show ?case
  proof (cases "B < int (card ?S)")
    case True
    from partitionBackups_full [OF fin True] True show ?thesis by (simp add: Let_def)
  next
    case False
    with Cons.IH [OF fin] show ?thesis by (simp add: Let_def split_beta)
  qed
qed

lemma partitionBackups_card:
  "finite S \<Longrightarrow> int (card S) \<le> B
   \<Longrightarrow> int (card (S \<union> logicalName ` set (fst (partitionBackups B S fs)))) \<le> B"
proof (induction fs arbitrary: S)
  case Nil
  then show ?case by simp
next
  case (Cons f fs)
  let ?S = "insert (logicalName f) S"
  have fin: "finite ?S" using Cons.prems by simp
  show ?case
  proof (cases "B < int (card ?S)")
    case True
    from partitionBackups_full [OF fin True] True Cons.prems show ?thesis
      by (simp add: Let_def)
  next
    case False
    then have "int (card ?S) \<le> B" by simp
    from Cons.IH [OF fin this] False show ?thesis by (simp add: Let_def split_beta)
  qed
qed

lemma set_logicalFiles: "set (logicalFiles ns) = set ns"
  by (induction ns rule: logicalFiles.induct) auto

lemma length_logicalFiles: "length (logicalFiles ns) \<le> length ns"
proof (induction ns rule: logicalFiles.induct)
  case 1
  show ?case by simp
next
  case (2 n ns)
  have "length (filter (\<lambda>m. m \<noteq> n) ns) \<le> length ns" by simp
  with 2 have "length (logicalFiles (filter (\<lambda>m. m \<noteq> n) ns)) \<le> length ns"
    by (rule le_trans)
  then show ?case by simp
qed

lemma distinct_logicalFiles: "distinct (logicalFiles ns)"
  by (induction ns rule: logicalFiles.induct) (auto simp add: set_logicalFiles)

lemma partitionBackups_names:
  "finite S \<Longrightarrow> int (card S) \<le> B
   \<Longrightarrow> S \<union> logicalName ` set (fst (partitionBackups B S fs))
       = S \<union> set (take (nat B - card S)
                     (logicalFiles (filter (\<lambda>n. n \<notin> S) (map logicalName fs))))"
proof (induction fs arbitrary: S)
  case Nil
  show ?case by simp
next
  case (Cons f fs)
  let ?n = "logicalName f"
  let ?S = "insert ?n S"
  have fin: "finite ?S" using Cons.prems by simp
  show ?case
  proof (cases "?n \<in> S")
    case True
    then have eq: "?S = S" by auto
    from Cons.prems(2) have nb: "\<not> B < int (card S)" by simp
    from Cons.IH [OF Cons.prems] True nb show ?thesis
      by (simp add: Let_def split_beta eq insert_absorb)
  next
    case False
    then have c: "card ?S = Suc (card S)" using Cons.prems(1) by simp
    have flt: "filter (\<lambda>m. m \<noteq> ?n) (filter (\<lambda>n. n \<notin> S) (map logicalName fs))
               = filter (\<lambda>n. n \<notin> ?S) (map logicalName fs)"
      by (simp add: conj_commute)
    show ?thesis
    proof (cases "B < int (card ?S)")
      case True
      with Cons.prems(2) c have "nat B - card S = 0" by simp
      with partitionBackups_full [OF fin True] True show ?thesis by (simp add: Let_def)
    next
      case nb: False
      then have le: "int (card ?S) \<le> B" by simp
      then have "nat B - card S = Suc (nat B - card ?S)" using c by simp
      with Cons.IH [OF fin le] nb False flt show ?thesis
        by (simp add: Let_def split_beta)
    qed
  qed
qed

text \<open>
  C2 (retention bound). With \<^verbatim>\<open>MaxBackups\<close> \<open>B > 0\<close>, the deletion step of
  \<^verbatim>\<open>millRunOnce\<close> splits the scan, newest first, into the files kept and, after them, the
  files to remove; the files kept count under at most \<open>B\<close> logical names (a file and its
  \<^verbatim>\<open>.gz\<close> count once), and these names are the first \<open>B\<close> logical names of the scan,
  that is the \<open>B\<close> most recent logical files.
\<close>

theorem retention_bound:
  assumes "0 < B" and "selectRemove B files = (remaining, remove)"
  shows "remaining @ remove = files
         \<and> int (card (logicalName ` set remaining)) \<le> B
         \<and> logicalName ` set remaining
           = set (take (nat B) (logicalFiles (map logicalName files)))"
proof (cases "B < int (length files)")
  case True
  with assms have p: "partitionBackups B {} files = (remaining, remove)"
    by (simp add: selectRemove_def)
  have a: "remaining @ remove = files"
    using partitionBackups_append [of "{}" B files] p by simp
  have b: "int (card (logicalName ` set remaining)) \<le> B"
    using partitionBackups_card [of "{}" B files] p assms(1) by simp
  have c: "logicalName ` set remaining
           = set (take (nat B) (logicalFiles (map logicalName files)))"
    using partitionBackups_names [of "{}" B files] p assms(1) by simp
  from a b c show ?thesis by simp
next
  case False
  with assms have r: "remaining = files" "remove = []" by (simp_all add: selectRemove_def)
  have "card (logicalName ` set files) \<le> length files"
    by (metis card_image_le card_length le_trans List.finite_set)
  with False have b: "int (card (logicalName ` set files)) \<le> B" by linarith
  have "length (logicalFiles (map logicalName files)) \<le> nat B"
    using length_logicalFiles [of "map logicalName files"] False by simp
  then have "take (nat B) (logicalFiles (map logicalName files))
             = logicalFiles (map logicalName files)" by simp
  then have c: "logicalName ` set files
                = set (take (nat B) (logicalFiles (map logicalName files)))"
    by (simp add: set_logicalFiles)
  from r b c show ?thesis by simp
qed

theorem retention_bound_witness:
  "selectRemove 2
     [entry 2021 9 4 ''2021-09-04.log'', entry 2021 9 3 ''2021-09-03.log'',
      entry 2021 9 2 ''2021-09-02.log'', entry 2021 9 1 ''2021-09-01.log.gz'']
   = ([entry 2021 9 4 ''2021-09-04.log'', entry 2021 9 3 ''2021-09-03.log''],
      [entry 2021 9 2 ''2021-09-02.log'', entry 2021 9 1 ''2021-09-01.log.gz''])
   \<and> int (card (logicalName `
         set [entry 2021 9 4 ''2021-09-04.log'', entry 2021 9 3 ''2021-09-03.log''])) \<le> 2
   \<and> logicalName ` set [entry 2021 9 4 ''2021-09-04.log'', entry 2021 9 3 ''2021-09-03.log'']
     = set (take (nat 2) (logicalFiles (map logicalName
         [entry 2021 9 4 ''2021-09-04.log'', entry 2021 9 3 ''2021-09-03.log'',
          entry 2021 9 2 ''2021-09-02.log'', entry 2021 9 1 ''2021-09-01.log.gz''])))"
proof -
  have b: "(0::int) < 2" by simp
  note r = retention_bound [OF b fourLogs_selectRemove]
  show ?thesis by (rule conjI [OF fourLogs_selectRemove conjunct2 [OF r]])
qed

text \<open>
  In a scan, which is sorted and in which two entries count under the same name exactly
  when they decode to the same date, a logical file is kept or removed as a whole: no entry
  removed shares its name with an entry kept.
\<close>

lemma partitionBackups_first_removed:
  "finite S \<Longrightarrow> int (card S) \<le> B \<Longrightarrow> partitionBackups B S fs = (rem, f # rmv)
   \<Longrightarrow> logicalName f \<notin> S \<union> logicalName ` set rem"
proof (induction fs arbitrary: S rem)
  case Nil
  then show ?case by simp
next
  case (Cons x xs)
  let ?S = "insert (logicalName x) S"
  have fin: "finite ?S" using Cons.prems(1) by simp
  show ?case
  proof (cases "B < int (card ?S)")
    case True
    from partitionBackups_full [OF fin True] True Cons.prems(3)
    have r: "rem = []" and f: "f = x" by (simp_all add: Let_def)
    have "logicalName x \<notin> S"
    proof
      assume "logicalName x \<in> S"
      then have "?S = S" by auto
      with True Cons.prems(2) show False by simp
    qed
    with r f show ?thesis by simp
  next
    case False
    then have le: "int (card ?S) \<le> B" by simp
    obtain rem' rmv' where p: "partitionBackups B ?S xs = (rem', rmv')"
      by (cases "partitionBackups B ?S xs") auto
    with False Cons.prems(3) have r: "rem = x # rem'" and m: "rmv' = f # rmv"
      by (simp_all add: Let_def)
    from Cons.IH [OF fin le p [unfolded m]] r show ?thesis by simp
  qed
qed

lemma retention_keeps_whole_files:
  assumes "0 < B" and "selectRemove B files = (remaining, remove)"
    and "sorted_wrt notOlder files"
    and "\<forall>f \<in> set files. \<forall>g \<in> set files.
           (logicalName f = logicalName g) = (instant (timestamp f) = instant (timestamp g))"
  shows "logicalName ` set remaining \<inter> logicalName ` set remove = {}"
proof (cases remove)
  case Nil
  then show ?thesis by simp
next
  case (Cons f rmv)
  with assms(2) have lt: "B < int (length files)"
    by (auto simp add: selectRemove_def split: if_splits)
  with assms(1,2) Cons have p: "partitionBackups B {} files = (remaining, f # rmv)"
    by (simp add: selectRemove_def)
  have fs: "files = remaining @ f # rmv"
    using partitionBackups_append [of "{}" B files] p by simp
  have new: "logicalName f \<notin> logicalName ` set remaining"
    using partitionBackups_first_removed [OF _ _ p] assms(1) by simp
  show ?thesis
  proof (rule ccontr)
    assume "logicalName ` set remaining \<inter> logicalName ` set remove \<noteq> {}"
    then obtain k r where k: "k \<in> set remaining" and r: "r \<in> set remove"
      and e: "logicalName k = logicalName r" by auto
    from k r fs Cons have mem: "k \<in> set files" "r \<in> set files" "f \<in> set files" by auto
    from assms(4) mem e have ie: "instant (timestamp k) = instant (timestamp r)" by blast
    from assms(3) fs k have kf: "instant (timestamp f) \<le> instant (timestamp k)"
      by (auto simp add: sorted_wrt_append notOlder_def)
    from assms(3) fs r Cons have fr: "instant (timestamp r) \<le> instant (timestamp f)"
      by (auto simp add: sorted_wrt_append notOlder_def)
    from ie kf fr have "instant (timestamp f) = instant (timestamp k)" by simp
    with assms(4) mem have "logicalName f = logicalName k" by blast
    with new k show False by auto
  qed
qed

subsection \<open>What the operations leave of the configuration\<close>

lemma keepsSettings_refl: "keepsSettings l l"
  by (simp add: keepsSettings_def)

lemma keepsSettings_trans:
  "keepsSettings l l1 \<Longrightarrow> keepsSettings l1 l2 \<Longrightarrow> keepsSettings l l2"
  by (auto simp add: keepsSettings_def)

lemma keepsSettings_currentFile: "keepsSettings l (l\<lparr>currentFile := f\<rparr>)"
  by (simp add: keepsSettings_def)

lemma dir_keeps: "keepsSettings l (fst (snd (dir os l w)))"
  by (simp add: dir_def keepsSettings_def split: prod.splits sum.splits option.splits)

lemma dir_Compress: "Compress (fst (snd (dir os l w))) = Compress l"
  using dir_keeps [of l os w] by (simp add: keepsSettings_def)

lemma oldLogFiles_keeps: "keepsSettings l (fst (snd (oldLogFiles os l w)))"
  using dir_keeps [of l os w]
  by (simp add: oldLogFiles_def split_beta split: sum.splits)

lemma mill_keeps: "keepsSettings l (mill l)"
  by (simp add: mill_def keepsSettings_def Let_def split: option.splits bool.splits)

lemma newFileName_keeps: "keepsSettings l (fst (snd (newFileName os l w)))"
  using dir_keeps [of l os "snd (Now os w)"]
  by (simp add: newFileName_def split_beta Let_def)

lemma openNew_keeps: "keepsSettings l (fst (snd (openNew os l w)))"
proof -
  let ?l1 = "fst (snd (newFileName os l w))"
  have a: "keepsSettings l ?l1" by (rule newFileName_keeps)
  have b: "keepsSettings ?l1 (mill (?l1\<lparr>currentFile := Some f\<rparr>))" for f
    by (rule keepsSettings_trans [OF keepsSettings_currentFile mill_keeps])
  show ?thesis
    using a keepsSettings_trans [OF a b]
    by (simp add: openNew_def split_beta split: sum.splits)
qed

lemma openExistingOrNew_keeps: "keepsSettings l (fst (snd (openExistingOrNew os l w)))"
proof -
  let ?l1 = "fst (snd (oldLogFiles os l w))"
  have a: "keepsSettings l ?l1" by (rule oldLogFiles_keeps)
  have b: "keepsSettings l (fst (snd (openNew os ?l1 w')))" for w'
    by (rule keepsSettings_trans [OF a openNew_keeps])
  have c: "keepsSettings l (fst (snd (dir os ?l1 w')))" for w'
    by (rule keepsSettings_trans [OF a dir_keeps])
  have d: "keepsSettings l ((fst (snd (dir os ?l1 w')))\<lparr>currentFile := f\<rparr>)" for w' f
    by (rule keepsSettings_trans [OF c keepsSettings_currentFile])
  show ?thesis
    using a b c d
    by (simp add: openExistingOrNew_def split_beta Let_def split: sum.splits list.splits)
qed

lemma writeCurrent_logger: "fst (snd (writeCurrent os l p w)) = l"
  by (simp add: writeCurrent_def split_beta split: option.splits)

lemma Write_keeps: "keepsSettings l (fst (snd (Write os l p w)))"
  using openExistingOrNew_keeps [of l os w]
  by (simp add: Write_def split_beta writeCurrent_logger keepsSettings_refl
      split: option.splits)

lemma Close_keeps: "fst (snd (Close os l w)) = l\<lparr>currentFile := None\<rparr>"
  by (cases "currentFile l") (simp_all add: Close_def close_def split_beta)

lemma attempt_keeps: "keepsSettings l (fst (snd (attempt os a l w)))"
  using dir_keeps [of l os w]
  by (cases a) (simp_all add: attempt_def split_beta)

lemma attemptAll_keeps: "keepsSettings l (fst (snd (attemptAll os as l w)))"
proof (induction as arbitrary: l w)
  case Nil
  show ?case by (simp add: keepsSettings_refl)
next
  case (Cons a as)
  have "keepsSettings l (fst (snd (attemptAll os as (fst (snd (attempt os a l w)))
                                      (snd (snd (attempt os a l w))))))"
    by (rule keepsSettings_trans [OF attempt_keeps Cons.IH])
  then show ?case by (simp add: split_beta)
qed

lemma millRunOnce_keeps: "keepsSettings l (fst (snd (millRunOnce os l w)))"
proof (cases "MaxBackups l = 0 \<and> \<not> Compress l")
  case True
  then show ?thesis by (simp add: millRunOnce_def keepsSettings_refl)
next
  case False
  obtain r l1 w1 where o: "oldLogFiles os l w = (r, l1, w1)"
    by (cases "oldLogFiles os l w") auto
  have a: "keepsSettings l l1" using oldLogFiles_keeps [of l os w] o by simp
  show ?thesis
  proof (cases r)
    case (Inl err)
    with False o a show ?thesis by (simp add: millRunOnce_def keepsSettings_refl)
  next
    case (Inr files)
    obtain kept remove where s: "selectRemove (MaxBackups l1) files = (kept, remove)"
      by (cases "selectRemove (MaxBackups l1) files") auto
    have b: "keepsSettings l (fst (snd (attemptAll os as l1 w1)))" for as
      by (rule keepsSettings_trans [OF a attemptAll_keeps])
    show ?thesis
    proof (cases "Compress l1")
      case c: True
      show ?thesis
      proof (cases "selectCompress kept")
        case (Return compress)
        with False o Inr s c b show ?thesis
          by (simp add: millRunOnce_def runMill_attemptAll split_beta keepsSettings_refl)
      next
        case (Panic msg)
        with False o Inr s c a show ?thesis
          by (simp add: millRunOnce_def keepsSettings_refl)
      qed
    next
      case c: False
      with False o Inr s b show ?thesis
        by (simp add: millRunOnce_def runMill_attemptAll split_beta keepsSettings_refl)
    qed
  qed
qed

text \<open>
  C8 (configuration after an operation), as the code has it. \<^verbatim>\<open>Write\<close>, \<^verbatim>\<open>Close\<close> and a
  mill pass leave \<^verbatim>\<open>MaxDays\<close>, \<^verbatim>\<open>MaxBackups\<close>, \<^verbatim>\<open>LocalTime\<close> and \<^verbatim>\<open>Compress\<close> as they
  were; \<^verbatim>\<open>Directory\<close> is as it was or has become the default directory, which is what
  \<^verbatim>\<open>dir\<close> assigns when it falls back; \<^verbatim>\<open>Close\<close> changes no field but the current file.
\<close>

theorem settings_preserved:
  "keepsSettings l (fst (snd (Write os l p w)))
   \<and> fst (snd (Close os l w)) = l\<lparr>currentFile := None\<rparr>
   \<and> keepsSettings l (fst (snd (millRunOnce os l w)))"
  by (intro conjI Write_keeps Close_keeps millRunOnce_keeps)

lemma pathIsFile_Write:
  "Write (scripted pathIsFile) (newLogger ''/etc/hosts'' 7 0 False False) ''x'' []
   = ((1, None),
      \<lparr>Directory = ''./Logs/'', MaxDays = 7, MaxBackups = 0, LocalTime = False,
        Compress = False, currentFile = Some (File 0), millCh = Some True,
        startMill = True\<rparr>,
      [DidOpen ''Logs/2021-09-04.log'' {O_CREATE, O_WRONLY, O_TRUNC},
       DidWrite (File 0) ''x''])"
  by code_simp

theorem settings_preserved_witness:
  "keepsSettings (newLogger ''/etc/hosts'' 7 0 False False)
     \<lparr>Directory = ''./Logs/'', MaxDays = 7, MaxBackups = 0, LocalTime = False,
       Compress = False, currentFile = Some (File 0), millCh = Some True,
       startMill = True\<rparr>"
  using settings_preserved
    [of "newLogger ''/etc/hosts'' 7 0 False False" "scripted pathIsFile" "''x''" "[]"]
  by (simp only: pathIsFile_Write fst_conv snd_conv)

text \<open>
  The configuration is not immutable: with a configured path that is a regular file, one
  \<^verbatim>\<open>Write\<close> replaces \<^verbatim>\<open>Directory\<close> by the default directory.
\<close>

theorem directory_mutated_counterexample:
  "Directory (newLogger ''/etc/hosts'' 7 0 False False) = ''/etc/hosts''
   \<and> Directory (fst (snd (Write (scripted pathIsFile)
                             (newLogger ''/etc/hosts'' 7 0 False False) ''x'' [])))
     = ''./Logs/''"
proof
  show "Directory (newLogger ''/etc/hosts'' 7 0 False False) = ''/etc/hosts''"
    by (simp add: newLogger_def)
  show "Directory (fst (snd (Write (scripted pathIsFile)
                               (newLogger ''/etc/hosts'' 7 0 False False) ''x'' [])))
        = ''./Logs/''"
    by (simp only: pathIsFile_Write fst_conv snd_conv) simp
qed

subsection \<open>The compression step\<close>

lemma oldLogFiles_Compress: "oldLogFiles os l w = (r, l1, w1) \<Longrightarrow> Compress l1 = Compress l"
  using oldLogFiles_keeps [of l os w] by (simp add: keepsSettings_def)

lemma oldLogFiles_MaxBackups:
  "oldLogFiles os l w = (r, l1, w1) \<Longrightarrow> MaxBackups l1 = MaxBackups l"
  using oldLogFiles_keeps [of l os w] by (simp add: keepsSettings_def)

lemma selectRemove_kept_nonempty:
  assumes "selectRemove B files = (kept, remove)"
  shows "(kept = []) = (files = [])"
proof (cases "0 < B \<and> B < int (length files)")
  case False
  with assms show ?thesis by (auto simp add: selectRemove_def)
next
  case True
  then obtain f fs where fs: "files = f # fs" by (cases files) auto
  from True have "\<not> B < int (card {logicalName f})" by simp
  with True assms fs show ?thesis
    by (auto simp add: selectRemove_def Let_def split_beta)
qed



subsection \<open>The pass on an empty scan\<close>

text \<open>
  \<^verbatim>\<open>millRunOnce\<close> panics exactly when compression is enabled and the scan succeeds with no
  log file: \<^verbatim>\<open>files[1:]\<close> is then taken of an empty slice.
\<close>

lemma millRunOnce_panics:
  "(\<exists>msg. fst (millRunOnce os l w) = Panic msg)
   = (Compress l \<and> fst (oldLogFiles os l w) = Inr [])"
proof -
  obtain r l1 w1 where o: "oldLogFiles os l w = (r, l1, w1)"
    by (cases "oldLogFiles os l w") auto
  note c1 = oldLogFiles_Compress [OF o]
  show ?thesis
  proof (cases r)
    case (Inl err)
    with o show ?thesis by (simp add: millRunOnce_def)
  next
    case (Inr files)
    obtain kept remove where s: "selectRemove (MaxBackups l1) files = (kept, remove)"
      by (cases "selectRemove (MaxBackups l1) files") auto
    note ne = selectRemove_kept_nonempty [OF s]
    show ?thesis
    proof (cases "Compress l")
      case False
      with o Inr s c1 show ?thesis by (simp add: millRunOnce_def split_beta)
    next
      case True
      show ?thesis
      proof (cases kept)
        case Nil
        with True o Inr s c1 ne show ?thesis
          by (simp add: millRunOnce_def selectCompress_def)
      next
        case (Cons f fs)
        with True o Inr s c1 ne show ?thesis
          by (auto simp add: millRunOnce_def selectCompress_def split_beta)
      qed
    qed
  qed
qed

text \<open>
  C10 (no fatal condition) fails on the code: with compression enabled and a directory
  that holds no log file, \<^verbatim>\<open>millRunOnce\<close> does not return; it panics, in the goroutine
  of the mill, which ends the process.
\<close>

theorem mill_pass_panics_on_empty_scan:
  "millRunOnce (scripted noLogs) (newLogger ''./Logs/'' 7 0 False True) []
   = (Panic ''slice bounds out of range [1:0]'', newLogger ''./Logs/'' 7 0 False True, [])"
  by code_simp

subsection \<open>The directory\<close>










subsection \<open>The cold open\<close>

text \<open>
  The bound of the cold open is the product it looks like as long as it fits an int64,
  that is for \<^verbatim>\<open>MaxDays\<close> up to 106751 days either way; \<^verbatim>\<open>Sub\<close> saturates, which does
  not change the comparison.
\<close>

lemma wrap64_id: "- (2 ^ 63) \<le> x \<Longrightarrow> x < 2 ^ 63 \<Longrightarrow> wrap64 x = x"
  by (simp add: wrap64_def)

lemma cold_open_bound:
  assumes "- 106751 \<le> m" and "m \<le> 106751"
  shows "(Sub t u < wrap64 (m * NanosecondPerDay))
         = (instant t - instant u < m * NanosecondPerDay)"
proof -
  have lo: "- 9223286400000000000 \<le> m * NanosecondPerDay"
    and hi: "m * NanosecondPerDay \<le> 9223286400000000000"
    using assms by (simp_all add: NanosecondPerDay_def)
  have w: "wrap64 (m * NanosecondPerDay) = m * NanosecondPerDay"
    using lo hi by (intro wrap64_id) simp_all
  show ?thesis using lo hi
    by (auto simp add: w Sub_def Let_def minDuration_def maxDuration_def)
qed

lemma cold_open_bound_overflow:
  "wrap64 (106752 * NanosecondPerDay) < 0 \<and> Sub (Date 2021 9 4) (Date 2021 9 4) = 0"
  by (simp add: wrap64_def NanosecondPerDay_def Sub_def Let_def minDuration_def maxDuration_def)

lemma cold_open_decision:
  assumes "oldLogFiles os l w = (Inr (latest # rest), l1, w1)"
    and "Now os w1 = (t, w2)" and "dir os l1 w2 = (d, l2, w3)"
    and "- 106751 \<le> MaxDays l1" and "MaxDays l1 \<le> 106751"
  shows "openExistingOrNew os l w =
           (if instant (zoned os l1 t) - instant (timestamp latest)
               < MaxDays l1 * NanosecondPerDay
            then (case OpenFile os (d @ Name (fileInfo latest)) {O_APPEND, O_WRONLY} 420 w3 of
                    (Inl err, w4) \<Rightarrow> (Some err, l2, w4)
                  | (Inr file, w4) \<Rightarrow> (None, l2\<lparr>currentFile := Some file\<rparr>, w4))
            else openNew os l1 w2)"
  using assms(1-3)
  by (simp add: openExistingOrNew_def Let_def cold_open_bound [OF assms(4,5)])

lemma cold_open_empty:
  assumes "oldLogFiles os l w = (Inr [], l1, w1)"
  shows "openExistingOrNew os l w = openNew os l1 w1"
  using assms by (simp add: openExistingOrNew_def)

lemma dir_mill_fields:
  "millCh (fst (snd (dir os l w))) = millCh l \<and> startMill (fst (snd (dir os l w))) = startMill l
   \<and> currentFile (fst (snd (dir os l w))) = currentFile l"
  by (simp add: dir_def split: prod.splits sum.splits option.splits)

lemma mill_signals: "startMill l \<longrightarrow> millCh l \<noteq> None \<Longrightarrow> millCh (mill l) = Some True \<and> startMill (mill l)"
  by (cases "millCh l"; cases "startMill l")
     (auto simp add: mill_def Let_def split: option.splits bool.splits)

lemma openNew_signals_mill:
  assumes "openNew os l w = (None, l1, w1)" and "startMill l \<longrightarrow> millCh l \<noteq> None"
  shows "millCh l1 = Some True \<and> startMill l1"
proof -
  let ?l0 = "fst (snd (newFileName os l w))"
  have "?l0 = fst (snd (dir os l (snd (Now os w))))"
    by (simp add: newFileName_def split_beta Let_def)
  then have inv: "startMill (?l0\<lparr>currentFile := Some f\<rparr>)
                  \<longrightarrow> millCh (?l0\<lparr>currentFile := Some f\<rparr>) \<noteq> None" for f
    using dir_mill_fields [of os l "snd (Now os w)"] assms(2) by simp
  from assms(1) obtain f where "l1 = mill (?l0\<lparr>currentFile := Some f\<rparr>)"
    by (auto simp add: openNew_def split_beta split: sum.splits)
  with mill_signals [OF inv] show ?thesis by simp
qed

text \<open>
  C5 (cold-open decision) fails on the code when the configured directory does not end
  in a slash. The directory \<^verbatim>\<open>./Logs\<close> holds today's log, well within \<^verbatim>\<open>MaxDays\<close>, so
  the newest file is to be reopened for appending; the path opened is
  \<^verbatim>\<open>l.dir()+latest.Name()\<close>, here \<^verbatim>\<open>./Logs2021-09-04.log\<close>, not the path
  \<^verbatim>\<open>filepath.Join\<close> gives everywhere else in the file; the open fails, \<^verbatim>\<open>Write\<close> returns
  the error and no file is open.
\<close>

theorem reopen_path_lacks_separator:
  "Write (scripted noTrailingSlash) (newLogger ''./Logs'' 7 0 False False) ''hello'' []
   = ((0, Some ErrNotExist), newLogger ''./Logs'' 7 0 False False,
      [DidOpen ''./Logs2021-09-04.log'' {O_APPEND, O_WRONLY}])
   \<and> Join ''./Logs'' ''2021-09-04.log'' = ''Logs/2021-09-04.log''"
  by code_simp

text \<open>The same directory configured with the slash: the newest file is reopened.\<close>

lemma reopen_with_separator:
  "Write (scripted noTrailingSlash) (newLogger ''./Logs/'' 7 0 False False) ''hello'' []
   = ((5, None), (newLogger ''./Logs/'' 7 0 False False)\<lparr>currentFile := Some (File 0)\<rparr>,
      [DidOpen ''./Logs/2021-09-04.log'' {O_APPEND, O_WRONLY}, DidWrite (File 0) ''hello''])"
  by code_simp

end
